theory Spec2Isabelle
  imports Complex_Main
begin

section \<open>The real-time notification layer of \<open>src/routes.ts\<close>\<close>

text \<open>
  The subsystem is the WebSocket part of \<open>registerRoutes\<close> (lines 301-348) and the
  share route that emits through it (lines 121-144):
  \<^item> \<open>userConnections\<close>, a \<open>Map<string, Set<WebSocket>>\<close>;
  \<^item> the \<open>message\<close> handler, which binds a connection on an AUTH message;
  \<^item> the \<open>close\<close> handler, which removes a connection from every set;
  \<^item> \<open>broadcastToUser\<close>, which writes one serialized message to the open sockets of a user.
  Node runs each handler to completion on one thread, so a handler is one atomic step on
  the state it touches.
\<close>

subsection \<open>Values\<close>

text \<open>
  \<open>JSON.parse\<close> returns \<open>any\<close>. A parsed value is a tree; arrays and objects
  carry the identity of the heap object that \<open>JSON.parse\<close> allocated for them, since a
  \<open>Map\<close> compares object keys by identity. A number is the numeric value of the parsed
  double (the handler only observes whether it is zero). \<open>JUndefined\<close> is never returned
  by \<open>JSON.parse\<close>; it is what reading an absent property gives.
  The fields of \<open>JObj\<close> are the own properties, each name once.
\<close>

datatype jsval =
    JUndefined
  | JNull
  | JBool bool
  | JNum rat
  | JStr string
  | JArr nat "jsval list"
  | JObj nat "(string \<times> jsval) list"

datatype js_error = SyntaxError | TypeError | SendError | ZodError | StorageError

text \<open>
  \<open>data.type\<close> and \<open>data.userId\<close>: reading a property of \<open>null\<close> or
  \<open>undefined\<close> throws a TypeError; on an object it gives the own property or
  \<open>undefined\<close>; on a boolean, number, string or array it gives \<open>undefined\<close> for the
  two names the handler reads (no built-in prototype defines \<open>type\<close> or \<open>userId\<close>).
\<close>

fun get_prop :: "jsval \<Rightarrow> string \<Rightarrow> js_error + jsval" where
  "get_prop JUndefined name = Inl TypeError"
| "get_prop JNull name = Inl TypeError"
| "get_prop (JObj r fields) name =
     (case map_of fields name of None \<Rightarrow> Inr JUndefined | Some v \<Rightarrow> Inr v)"
| "get_prop v name = Inr JUndefined"

text \<open>JavaScript truthiness, as \<open>&&\<close> tests it.\<close>

fun truthy :: "jsval \<Rightarrow> bool" where
  "truthy JUndefined = False"
| "truthy JNull = False"
| "truthy (JBool b) = b"
| "truthy (JNum n) = (n \<noteq> 0)"
| "truthy (JStr s) = (s \<noteq> [])"
| "truthy (JArr r xs) = True"
| "truthy (JObj r fields) = True"

text \<open>
  A key of the \<open>Map\<close>. Keys are compared by SameValueZero: primitives by value, objects
  and arrays by identity. The declared key type is \<open>string\<close>, but \<open>data.userId\<close> is
  \<open>any\<close> and is used as it arrives.
\<close>

datatype key = KStr string | KNum rat | KBool bool | KRef nat | KNull | KUndefined

fun key_of :: "jsval \<Rightarrow> key" where
  "key_of (JStr s) = KStr s"
| "key_of (JNum n) = KNum n"
| "key_of (JBool b) = KBool b"
| "key_of (JArr r xs) = KRef r"
| "key_of (JObj r fields) = KRef r"
| "key_of JNull = KNull"
| "key_of JUndefined = KUndefined"

text \<open>A \<open>WebSocket\<close> object, by identity.\<close>

type_synonym ws = nat

subsection \<open>\<open>Set\<close> and \<open>Map\<close>, in insertion order\<close>

text \<open>
  A JavaScript \<open>Set\<close> is its elements in insertion order, each once; a \<open>Map\<close> is its
  entries in insertion order, each key once. \<open>forEach\<close> visits them in that order.
\<close>

type_synonym registry = "(key \<times> ws list) list"

definition Set_add :: "ws list \<Rightarrow> ws \<Rightarrow> ws list" where
  "Set_add s x = (if x \<in> set s then s else s @ [x])"

definition Set_delete :: "ws list \<Rightarrow> ws \<Rightarrow> ws list" where
  "Set_delete s x = removeAll x s"

definition Map_get :: "registry \<Rightarrow> key \<Rightarrow> ws list option" where
  "Map_get m k = map_of m k"

definition Map_has :: "registry \<Rightarrow> key \<Rightarrow> bool" where
  "Map_has m k = (map_of m k \<noteq> None)"

text \<open>\<open>set\<close> replaces the value of a present key in place and appends an absent one.\<close>

fun Map_set :: "registry \<Rightarrow> key \<Rightarrow> ws list \<Rightarrow> registry" where
  "Map_set [] k v = [(k, v)]"
| "Map_set ((k', v') # m) k v = (if k' = k then (k, v) # m else (k', v') # Map_set m k v)"

subsection \<open>The registry operations\<close>

text \<open>
  Lines 316-319, the body of the AUTH branch:
  \<^verbatim>\<open>
  if (!userConnections.has(data.userId)) {
    userConnections.set(data.userId, new Set());
  }
  userConnections.get(data.userId)!.add(ws);
  \<close>
  The \<open>!\<close> is a compile-time assertion only: were \<open>get\<close> to return \<open>undefined\<close>,
  \<open>.add\<close> would throw a TypeError. \<open>add\<close> mutates the set the entry holds.
\<close>

definition register :: "key \<Rightarrow> ws \<Rightarrow> registry \<Rightarrow> js_error + registry" where
  "register userId ws userConnections =
     (let m1 = (if \<not> Map_has userConnections userId
                then Map_set userConnections userId [] else userConnections)
      in case Map_get m1 userId of
           None \<Rightarrow> Inl TypeError
         | Some connections \<Rightarrow> Inr (Map_set m1 userId (Set_add connections ws)))"

text \<open>
  Lines 328-333, the body of the close handler:
  \<^verbatim>\<open>
  // Remove connection from all users
  userConnections.forEach((connections, userId) => {
    connections.delete(ws);
    if (connections.size === 0) {
      userConnections.delete(userId);
    }
  });
  \<close>
  Deleting the entry being visited does not disturb \<open>forEach\<close>: every entry is visited
  once, and the entries that stay keep their order.
\<close>

fun unregister :: "ws \<Rightarrow> registry \<Rightarrow> registry" where
  "unregister ws [] = []"
| "unregister ws ((userId, connections) # rest) =
     (let connections' = Set_delete connections ws
      in if length connections' = 0 then unregister ws rest
         else (userId, connections') # unregister ws rest)"

text \<open>
  \<open>connectionsFor\<close> is the specification's name for the lookup \<open>broadcastToUser\<close>
  makes: \<open>userConnections.get(userId)\<close>, with \<open>undefined\<close> read as no connection.
\<close>

definition connectionsFor :: "registry \<Rightarrow> key \<Rightarrow> ws list" where
  "connectionsFor m k = (case Map_get m k of None \<Rightarrow> [] | Some connections \<Rightarrow> connections)"

subsection \<open>The state the handlers share\<close>

text \<open>
  Besides \<open>userConnections\<close>, the handlers read each socket's \<open>readyState\<close>, which
  the transport owns, and act on the outside through three calls, each kept as a trace in
  call order: \<open>ws.send\<close> (\<open>wire\<close>), \<open>JSON.stringify\<close> (\<open>serialized\<close>) and
  \<open>console.error\<close> (\<open>console_error\<close>).
\<close>

datatype ready_state = CONNECTING | OPEN | CLOSING | CLOSED

text \<open>
  The message a route hands to \<open>broadcastToUser\<close> is one of four object literals
  (lines 74, 92, 109, 134). A task row is a parsed value; \<open>taskId\<close> is the result of
  \<open>parseInt\<close>, an integer or \<open>NaN\<close> (\<open>None\<close>).
\<close>

datatype event =
    TASK_CREATED jsval
  | TASK_UPDATED jsval
  | TASK_DELETED "int option"
  | TASK_SHARED "int option" string

record world =
  userConnections :: registry
  readyState :: "ws \<Rightarrow> ready_state"
  wire :: "(ws \<times> string) list"
  serialized :: "event list"
  console_error :: "(string \<times> js_error) list"

subsection \<open>The message handler (lines 310-324)\<close>

text \<open>
  \<^verbatim>\<open>
  ws.on('message', (message: string) => {
    try {
      const data = JSON.parse(message);
      if (data.type === 'AUTH' && data.userId) { ...register... }
    } catch (error) {
      console.error('Error parsing WebSocket message:', error);
    }
  });
  \<close>
  \<open>JSON.parse\<close> belongs to the runtime and is a parameter: \<open>None\<close> is its
  SyntaxError. \<open>message_try\<close> is the \<open>try\<close> block, \<open>on_message\<close> the handler.
  \<open>JSON.parse\<close> and the two property reads throw before the registry is touched, and
  \<open>register\<close> never takes its throwing branch (lemma \<open>register_eq\<close>), so the
  \<open>catch\<close> branch finds the registry as it was.
\<close>

definition message_try ::
  "(string \<Rightarrow> jsval option) \<Rightarrow> ws \<Rightarrow> string \<Rightarrow> registry \<Rightarrow> js_error + registry" where
  "message_try JSON_parse ws message m =
     (case JSON_parse message of
        None \<Rightarrow> Inl SyntaxError
      | Some data \<Rightarrow>
          (case get_prop data ''type'' of
             Inl e \<Rightarrow> Inl e
           | Inr t \<Rightarrow>
               if t = JStr ''AUTH'' then
                 (case get_prop data ''userId'' of
                    Inl e \<Rightarrow> Inl e
                  | Inr userId \<Rightarrow>
                      if truthy userId then register (key_of userId) ws m else Inr m)
               else Inr m))"

definition on_message :: "(string \<Rightarrow> jsval option) \<Rightarrow> ws \<Rightarrow> string \<Rightarrow> world \<Rightarrow> world" where
  "on_message JSON_parse ws message w =
     (case message_try JSON_parse ws message (userConnections w) of
        Inr m \<Rightarrow> w\<lparr>userConnections := m\<rparr>
      | Inl error \<Rightarrow>
          w\<lparr>console_error := console_error w @ [(''Error parsing WebSocket message:'', error)]\<rparr>)"

subsection \<open>The close handler (lines 326-334)\<close>

definition on_close :: "ws \<Rightarrow> world \<Rightarrow> world" where
  "on_close ws w = w\<lparr>userConnections := unregister ws (userConnections w)\<rparr>"

subsection \<open>\<open>broadcastToUser\<close> (lines 338-348)\<close>

text \<open>
  \<open>ws.send\<close> belongs to the \<open>ws\<close> package. On an open socket it writes the data. On
  a socket in another state the package throws or drops the data, depending on its
  version; the model takes the throw, the stricter of the two.
  A call returns the error it threw, if any, and the state it left.
\<close>

definition ws_send :: "ws \<Rightarrow> string \<Rightarrow> world \<Rightarrow> js_error option \<times> world" where
  "ws_send ws data w =
     (if readyState w ws = OPEN then (None, w\<lparr>wire := wire w @ [(ws, data)]\<rparr>)
      else (Some SendError, w))"

text \<open>
  \<^verbatim>\<open>
  connections.forEach((ws) => {
    if (ws.readyState === WebSocket.OPEN) {
      ws.send(messageStr);
    }
  });
  \<close>
  A throw in the callback leaves \<open>forEach\<close> and the function.
\<close>

fun forEach_send :: "ws list \<Rightarrow> string \<Rightarrow> world \<Rightarrow> js_error option \<times> world" where
  "forEach_send [] messageStr w = (None, w)"
| "forEach_send (ws # rest) messageStr w =
     (if readyState w ws = OPEN then
        (case ws_send ws messageStr w of
           (Some e, w') \<Rightarrow> (Some e, w')
         | (None, w') \<Rightarrow> forEach_send rest messageStr w')
      else forEach_send rest messageStr w)"

text \<open>
  \<^verbatim>\<open>
  function broadcastToUser(userId: string, message: any) {
    const connections = userConnections.get(userId);
    if (connections) {
      const messageStr = JSON.stringify(message);
      connections.forEach(...);
    }
  }
  \<close>
  \<open>JSON.stringify\<close> belongs to the runtime and is a parameter; on the four messages
  of the routes it returns a string.
\<close>

definition broadcastToUser ::
  "(event \<Rightarrow> string) \<Rightarrow> string \<Rightarrow> event \<Rightarrow> world \<Rightarrow> js_error option \<times> world" where
  "broadcastToUser JSON_stringify userId message w =
     (case Map_get (userConnections w) (KStr userId) of
        None \<Rightarrow> (None, w)
      | Some connections \<Rightarrow>
          (let messageStr = JSON_stringify message;
               w1 = w\<lparr>serialized := serialized w @ [message]\<rparr>
           in forEach_send connections messageStr w1))"

subsection \<open>The share route (lines 121-144)\<close>

text \<open>
  \<^verbatim>\<open>
  const userId = req.user.claims.sub;
  const taskId = parseInt(req.params.id);
  const shareData = insertTaskShareSchema.parse({ ...req.body, taskId, sharedById: userId });
  const taskShare = await storage.shareTask(shareData);
  broadcastToUser(shareData.userId, { type: 'TASK_SHARED', payload: { taskId, sharedBy: userId } });
  res.status(201).json(taskShare);
  \<close>
  all in a \<open>try\<close> whose \<open>catch\<close> logs and answers 500.
  \<open>insertTaskShareSchema\<close> (in \<open>@shared/schema\<close>) and the database behind
  \<open>storage.shareTask\<close> are not part of the sources at hand; both are parameters
  that return a value or throw. The schema is given the three parts of the object it
  parses: the body's properties, \<open>taskId\<close> and \<open>sharedById\<close>. Of the parsed share
  the route reads \<open>userId\<close> only.
\<close>

record insert_task_share =
  share_taskId :: "int option"
  share_userId :: string
  share_sharedById :: string

datatype 'r response = Created 'r | Failed string

definition share_failed :: "js_error \<Rightarrow> world \<Rightarrow> 'r response \<times> world" where
  "share_failed error w =
     (Failed ''Failed to share task'',
      w\<lparr>console_error := console_error w @ [(''Error sharing task:'', error)]\<rparr>)"

definition share_route ::
  "(event \<Rightarrow> string) \<Rightarrow>
   ((string \<times> jsval) list \<Rightarrow> int option \<Rightarrow> string \<Rightarrow> js_error + insert_task_share) \<Rightarrow>
   (insert_task_share \<Rightarrow> js_error + 'r) \<Rightarrow>
   string \<Rightarrow> int option \<Rightarrow> (string \<times> jsval) list \<Rightarrow> world \<Rightarrow> 'r response \<times> world" where
  "share_route JSON_stringify schema_parse storage_shareTask actor taskId body w =
     (case schema_parse body taskId actor of
        Inl e \<Rightarrow> share_failed e w
      | Inr shareData \<Rightarrow>
          (case storage_shareTask shareData of
             Inl e \<Rightarrow> share_failed e w
           | Inr taskShare \<Rightarrow>
               (case broadcastToUser JSON_stringify (share_userId shareData)
                       (TASK_SHARED taskId actor) w of
                  (Some e, w') \<Rightarrow> share_failed e w'
                | (None, w') \<Rightarrow> (Created taskShare, w'))))"

subsection \<open>Sequences of operations\<close>

text \<open>
  The registry changes only through the AUTH branch and the close handler. A sequence of
  such operations runs from left to right; a throw of \<open>register\<close> would be caught by
  the handler with the registry as it was.
\<close>

datatype reg_op = Register key ws | Unregister ws

fun apply_op :: "registry \<Rightarrow> reg_op \<Rightarrow> registry" where
  "apply_op m (Register k c) = (case register k c m of Inr m' \<Rightarrow> m' | Inl e \<Rightarrow> m)"
| "apply_op m (Unregister c) = unregister c m"

definition apply_ops :: "reg_op list \<Rightarrow> registry \<Rightarrow> registry" where
  "apply_ops ops m = foldl apply_op m ops"

text \<open>
  What happens to the whole state: a message arrives on a socket, a socket closes, the
  transport moves a socket to another state, a route calls \<open>broadcastToUser\<close>.
\<close>

datatype input = Message ws string | Close ws | Transport ws ready_state | Emit string event

fun step :: "(string \<Rightarrow> jsval option) \<Rightarrow> (event \<Rightarrow> string) \<Rightarrow> world \<Rightarrow> input \<Rightarrow> world" where
  "step JSON_parse JSON_stringify w (Message c message) = on_message JSON_parse c message w"
| "step JSON_parse JSON_stringify w (Close c) = on_close c w"
| "step JSON_parse JSON_stringify w (Transport c s) = w\<lparr>readyState := (readyState w)(c := s)\<rparr>"
| "step JSON_parse JSON_stringify w (Emit userId message) =
     snd (broadcastToUser JSON_stringify userId message w)"

definition run ::
  "(string \<Rightarrow> jsval option) \<Rightarrow> (event \<Rightarrow> string) \<Rightarrow> input list \<Rightarrow> world \<Rightarrow> world" where
  "run JSON_parse JSON_stringify ins w = foldl (step JSON_parse JSON_stringify) w ins"

subsection \<open>Observations\<close>

text \<open>The identities whose set holds a connection, in registry order.\<close>

definition identities_of :: "registry \<Rightarrow> ws \<Rightarrow> key list" where
  "identities_of m c = map fst (filter (\<lambda>entry. c \<in> set (snd entry)) m)"

text \<open>No entry has an empty set.\<close>

definition no_empty_entry :: "registry \<Rightarrow> bool" where
  "no_empty_entry m = list_all (\<lambda>entry. snd entry \<noteq> []) m"

text \<open>The payloads written to a socket, in the order of the \<open>send\<close> calls.\<close>

definition received :: "world \<Rightarrow> ws \<Rightarrow> string list" where
  "received w c = map snd (filter (\<lambda>p. fst p = c) (wire w))"

text \<open>The guard of the message handler, on a parsed value whose properties can be read.\<close>

definition auth_guard :: "jsval \<Rightarrow> bool" where
  "auth_guard data =
     (case get_prop data ''type'' of
        Inl e \<Rightarrow> False
      | Inr t \<Rightarrow> t = JStr ''AUTH'' \<and>
          (case get_prop data ''userId'' of Inl e \<Rightarrow> False | Inr u \<Rightarrow> truthy u))"

text \<open>
  What a broadcast of the string \<open>messageStr\<close> to \<open>userId\<close>, made in state
  \<open>w\<close>, writes to the socket \<open>c\<close>: one copy if \<open>c\<close> is in the set of
  \<open>userId\<close> and open, none otherwise.
\<close>

definition deliveries :: "world \<Rightarrow> string \<Rightarrow> ws \<Rightarrow> string \<Rightarrow> string list" where
  "deliveries w userId c messageStr =
     map (\<lambda>c'. messageStr)
       (filter (\<lambda>c'. c' = c \<and> readyState w c' = OPEN)
          (connectionsFor (userConnections w) (KStr userId)))"

text \<open>
  The key the message handler registers a socket under, if the message passes its guard,
  and the registry operations an input stands for.
\<close>

definition auth_key :: "(string \<Rightarrow> jsval option) \<Rightarrow> string \<Rightarrow> key option" where
  "auth_key JSON_parse message =
     (case JSON_parse message of
        None \<Rightarrow> None
      | Some data \<Rightarrow>
          if auth_guard data then
            (case get_prop data ''userId'' of Inl e \<Rightarrow> None | Inr u \<Rightarrow> Some (key_of u))
          else None)"

fun reg_ops_of :: "(string \<Rightarrow> jsval option) \<Rightarrow> input \<Rightarrow> reg_op list" where
  "reg_ops_of JSON_parse (Message c message) =
     (case auth_key JSON_parse message of None \<Rightarrow> [] | Some k \<Rightarrow> [Register k c])"
| "reg_ops_of JSON_parse (Close c) = [Unregister c]"
| "reg_ops_of JSON_parse (Transport c s) = []"
| "reg_ops_of JSON_parse (Emit userId message) = []"

subsection \<open>Removal by a recorded identity, as the specification words it\<close>

text \<open>
  Section 4.2 of the specification has the binder record the bound identity on the
  connection, "used later by unregister". \<open>unregister_bound\<close> follows these words: it
  removes the connection from the set of the recorded identity, and deletes the entry if
  that empties it. It is compared with \<open>unregister\<close>, which is the code.
\<close>

fun unregister_bound :: "key \<Rightarrow> ws \<Rightarrow> registry \<Rightarrow> registry" where
  "unregister_bound bound ws [] = []"
| "unregister_bound bound ws ((k, connections) # rest) =
     (if k = bound then
        (let connections' = Set_delete connections ws
         in if connections' = [] then rest else (k, connections') # rest)
      else (k, connections) # unregister_bound bound ws rest)"

subsection \<open>Concrete runs\<close>

text \<open>
  Instances of the two runtime parameters for the concrete runs below.
  \<open>parse_sample\<close> is \<open>JSON.parse\<close> on the messages the runs use and stands for a
  SyntaxError on every other text; \<open>stringify_sample\<close> renders a message by its type.
  At the start no socket is registered and every socket is open.
\<close>

definition parse_sample :: "string \<Rightarrow> jsval option" where
  \<open>parse_sample message =
     (if message = ''{"type":"AUTH","userId":"u1"}'' then
        Some (JObj 1 [(''type'', JStr ''AUTH''), (''userId'', JStr ''u1'')])
      else if message = ''{"type":"AUTH","userId":"u2"}'' then
        Some (JObj 2 [(''type'', JStr ''AUTH''), (''userId'', JStr ''u2'')])
      else if message = ''{"type":"AUTH","userId":42}'' then
        Some (JObj 3 [(''type'', JStr ''AUTH''), (''userId'', JNum 42)])
      else if message = ''{"type":"PING"}'' then
        Some (JObj 4 [(''type'', JStr ''PING'')])
      else if message = ''null'' then Some JNull
      else None)\<close>

fun stringify_sample :: "event \<Rightarrow> string" where
  "stringify_sample (TASK_CREATED task) = ''TASK_CREATED''"
| "stringify_sample (TASK_UPDATED task) = ''TASK_UPDATED''"
| "stringify_sample (TASK_DELETED taskId) = ''TASK_DELETED''"
| "stringify_sample (TASK_SHARED taskId sharedBy) = ''TASK_SHARED''"

definition world0 :: world where
  "world0 = \<lparr>userConnections = [], readyState = (\<lambda>c. OPEN), wire = [], serialized = [],
              console_error = []\<rparr>"

text \<open>
  A state for the concrete runs: two sockets bound to \<open>u1\<close>, the second of them
  closing, and one bound to \<open>u2\<close>.
\<close>

definition world_sample :: world where
  "world_sample = \<lparr>userConnections = [(KStr ''u1'', [1, 2]), (KStr ''u2'', [3])],
     readyState = (\<lambda>c. if c = 2 then CLOSING else OPEN), wire = [], serialized = [],
     console_error = []\<rparr>"

text \<open>
  Instances of the two parameters of the share route: a schema that asks for a numeric
  \<open>taskId\<close> and a string \<open>userId\<close> in the body, and a store that returns the row
  it was given.
\<close>

definition schema_sample ::
  "(string \<times> jsval) list \<Rightarrow> int option \<Rightarrow> string \<Rightarrow> js_error + insert_task_share" where
  "schema_sample body taskId sharedById =
     (case taskId of
        None \<Rightarrow> Inl ZodError
      | Some n \<Rightarrow>
          (case map_of body ''userId'' of
             Some (JStr u) \<Rightarrow>
               Inr \<lparr>share_taskId = Some n, share_userId = u, share_sharedById = sharedById\<rparr>
           | _ \<Rightarrow> Inl ZodError))"

definition storage_sample :: "insert_task_share \<Rightarrow> js_error + insert_task_share" where
  "storage_sample shareData = Inr shareData"

section \<open>Properties\<close>

subsection \<open>\<open>Map\<close> and registry lemmas\<close>

lemma map_of_Map_set: "map_of (Map_set m k v) k' = (if k' = k then Some v else map_of m k')"
  by (induction m) auto

lemma Map_get_Map_set: "Map_get (Map_set m k v) k' = (if k' = k then Some v else Map_get m k')"
  by (simp add: Map_get_def map_of_Map_set)

lemma Map_set_twice: "Map_set (Map_set m k v) k v' = Map_set m k v'"
  by (induction m) auto

lemma register_eq: "register k ws m = Inr (Map_set m k (Set_add (connectionsFor m k) ws))"
proof (cases "map_of m k")
  case None
  then show ?thesis
    by (simp add: register_def connectionsFor_def Map_has_def Map_get_def map_of_Map_set Map_set_twice)
next
  case (Some cs)
  then show ?thesis
    by (simp add: register_def connectionsFor_def Map_has_def Map_get_def)
qed

lemma connectionsFor_Map_set: "connectionsFor (Map_set m k v) k' = (if k' = k then v else connectionsFor m k')"
  by (simp add: connectionsFor_def Map_get_Map_set)

lemma map_fst_Map_set:
  "map fst (Map_set m k v) = (if k \<in> fst ` set m then map fst m else map fst m @ [k])"
proof (induction m)
  case Nil
  then show ?case by simp
next
  case (Cons p m)
  obtain k' v' where p: "p = (k', v')" by (cases p)
  show ?case using Cons by (cases "k' = k") (simp_all add: p)
qed

lemma keys_Map_set: "fst ` set (Map_set m k v) = insert k (fst ` set m)"
proof -
  have "set (map fst (Map_set m k v)) = insert k (set (map fst m))"
    unfolding map_fst_Map_set by auto
  then show ?thesis by simp
qed

lemma distinct_keys_Map_set: "distinct (map fst m) \<Longrightarrow> distinct (map fst (Map_set m k v))"
  by (simp add: map_fst_Map_set)

lemma keys_unregister: "set (map fst (unregister ws m)) \<subseteq> set (map fst m)"
  by (induction ws m rule: unregister.induct) (auto simp: Let_def)

lemma distinct_keys_unregister: "distinct (map fst m) \<Longrightarrow> distinct (map fst (unregister ws m))"
  using keys_unregister by (induction ws m rule: unregister.induct) (fastforce simp: Let_def)+

lemma connectionsFor_unregister:
  "distinct (map fst m) \<Longrightarrow> connectionsFor (unregister ws m) k = removeAll ws (connectionsFor m k)"
proof (induction ws m rule: unregister.induct)
  case (1 ws)
  then show ?case by (simp add: connectionsFor_def Map_get_def)
next
  case (2 ws userId connections rest)
  have notin: "map_of (unregister ws rest) userId = None" "map_of rest userId = None"
    using 2(3) keys_unregister[of ws rest] by (auto simp: map_of_eq_None_iff)
  from 2 show ?case
    by (auto simp: connectionsFor_def Map_get_def Let_def Set_delete_def notin)
qed


lemma forEach_send_eq:
  "forEach_send cs s w =
     (None, w\<lparr>wire := wire w @ map (\<lambda>c. (c, s)) (filter (\<lambda>c. readyState w c = OPEN) cs)\<rparr>)"
proof (induction cs arbitrary: w)
  case Nil
  then show ?case by simp
next
  case (Cons c cs)
  then show ?case by (simp add: ws_send_def)
qed

lemma broadcastToUser_eq:
  "broadcastToUser JSON_stringify userId message w =
     (None, w\<lparr>serialized := serialized w @
                   (if Map_has (userConnections w) (KStr userId) then [message] else []),
               wire := wire w @ map (\<lambda>c. (c, JSON_stringify message))
                    (filter (\<lambda>c. readyState w c = OPEN)
                       (connectionsFor (userConnections w) (KStr userId)))\<rparr>)"
  by (cases "map_of (userConnections w) (KStr userId)")
     (simp_all add: broadcastToUser_def forEach_send_eq connectionsFor_def Map_has_def Map_get_def)

lemma received_broadcast:
  "received (snd (broadcastToUser S u e w)) c =
     received w c @ map (\<lambda>c. S e)
       (filter (\<lambda>c'. c' = c \<and> readyState w c' = OPEN) (connectionsFor (userConnections w) (KStr u)))"
  by (simp add: broadcastToUser_eq received_def filter_map comp_def conj_commute)

subsection \<open>What a broadcast does\<close>

text \<open>
  Claim C10. \<open>broadcastToUser\<close> leaves \<open>userConnections\<close> as it found it, whatever the
  identity, the message and the states of the sockets it meets.
\<close>

theorem broadcast_keeps_registry:
  "userConnections (snd (broadcastToUser JSON_stringify userId message w)) = userConnections w"
  by (simp add: broadcastToUser_eq)

text \<open>
  Claim C5. \<open>broadcastToUser\<close> never throws, although \<open>ws.send\<close> may: the test of
  \<open>readyState\<close> keeps every call of \<open>send\<close> on an open socket. A socket of the
  identity that is not open is written nothing. For an identity with no entry the call
  changes nothing at all.
\<close>

theorem broadcast_never_raises:
  "fst (broadcastToUser JSON_stringify userId message w) = None \<and>
   (\<forall>c. readyState w c \<noteq> OPEN \<longrightarrow>
        received (snd (broadcastToUser JSON_stringify userId message w)) c = received w c) \<and>
   (Map_get (userConnections w) (KStr userId) = None \<longrightarrow>
        broadcastToUser JSON_stringify userId message w = (None, w))"
proof (intro conjI allI impI)
  show "fst (broadcastToUser JSON_stringify userId message w) = None"
    by (simp add: broadcastToUser_eq)
next
  fix c assume "readyState w c \<noteq> OPEN"
  then have "filter (\<lambda>c'. c' = c \<and> readyState w c' = OPEN)
               (connectionsFor (userConnections w) (KStr userId)) = []"
    by (auto simp: filter_empty_conv)
  then show "received (snd (broadcastToUser JSON_stringify userId message w)) c = received w c"
    by (simp add: received_broadcast)
next
  assume "Map_get (userConnections w) (KStr userId) = None"
  then show "broadcastToUser JSON_stringify userId message w = (None, w)"
    by (simp add: broadcastToUser_def)
qed

theorem broadcast_never_raises_witness:
  "readyState world_sample 2 \<noteq> OPEN \<and>
   fst (broadcastToUser stringify_sample ''u1'' (TASK_DELETED (Some 7)) world_sample) = None \<and>
   received (snd (broadcastToUser stringify_sample ''u1'' (TASK_DELETED (Some 7)) world_sample)) 2
     = received world_sample 2 \<and>
   Map_get (userConnections world_sample) (KStr ''u3'') = None \<and>
   broadcastToUser stringify_sample ''u3'' (TASK_DELETED (Some 7)) world_sample
     = (None, world_sample)"
proof -
  have closing: "readyState world_sample 2 \<noteq> OPEN"
    by (simp add: world_sample_def)
  have absent: "Map_get (userConnections world_sample) (KStr ''u3'') = None"
    by (simp add: world_sample_def Map_get_def)
  note u1 = broadcast_never_raises
    [of stringify_sample "''u1''" "TASK_DELETED (Some 7)" world_sample]
  note u3 = broadcast_never_raises
    [of stringify_sample "''u3''" "TASK_DELETED (Some 7)" world_sample]
  from u1 closing absent u3 show ?thesis by blast
qed

text \<open>
  Claim C1, as the code has it. When the identity has an entry, the message is serialized
  once, before the loop, and every open socket of the identity is sent that one string, in
  set order; when it has no entry, nothing is serialized and nothing is sent. A socket
  that is not in the set of the identity is written nothing.
\<close>

theorem broadcast_same_bytes:
  "serialized (snd (broadcastToUser JSON_stringify userId message w)) =
     serialized w @ (if Map_has (userConnections w) (KStr userId) then [message] else []) \<and>
   wire (snd (broadcastToUser JSON_stringify userId message w)) =
     wire w @ map (\<lambda>c. (c, JSON_stringify message))
       (filter (\<lambda>c. readyState w c = OPEN) (connectionsFor (userConnections w) (KStr userId))) \<and>
   (\<forall>c. c \<notin> set (connectionsFor (userConnections w) (KStr userId)) \<longrightarrow>
        received (snd (broadcastToUser JSON_stringify userId message w)) c = received w c)"
proof (intro conjI allI impI)
  fix c assume "c \<notin> set (connectionsFor (userConnections w) (KStr userId))"
  then have "filter (\<lambda>c'. c' = c \<and> readyState w c' = OPEN)
               (connectionsFor (userConnections w) (KStr userId)) = []"
    by (auto simp: filter_empty_conv)
  then show "received (snd (broadcastToUser JSON_stringify userId message w)) c = received w c"
    by (simp add: received_broadcast)
qed (simp_all add: broadcastToUser_eq)

theorem broadcast_same_bytes_witness:
  "3 \<notin> set (connectionsFor (userConnections world_sample) (KStr ''u1'')) \<and>
   received (snd (broadcastToUser stringify_sample ''u1'' (TASK_DELETED (Some 7)) world_sample)) 3
     = received world_sample 3 \<and>
   serialized (snd (broadcastToUser stringify_sample ''u1'' (TASK_DELETED (Some 7)) world_sample))
     = [TASK_DELETED (Some 7)] \<and>
   wire (snd (broadcastToUser stringify_sample ''u1'' (TASK_DELETED (Some 7)) world_sample))
     = [(1, ''TASK_DELETED'')]"
proof -
  have other: "3 \<notin> set (connectionsFor (userConnections world_sample) (KStr ''u1''))"
    by (simp add: world_sample_def connectionsFor_def Map_get_def)
  note b = broadcast_same_bytes
    [of stringify_sample "''u1''" "TASK_DELETED (Some 7)" world_sample]
  from b other have
    "received (snd (broadcastToUser stringify_sample ''u1'' (TASK_DELETED (Some 7)) world_sample)) 3
       = received world_sample 3"
    by blast
  moreover from b have
    "serialized (snd (broadcastToUser stringify_sample ''u1'' (TASK_DELETED (Some 7)) world_sample))
       = [TASK_DELETED (Some 7)]"
    by (simp add: world_sample_def Map_has_def)
  moreover from b have
    "wire (snd (broadcastToUser stringify_sample ''u1'' (TASK_DELETED (Some 7)) world_sample))
       = [(1, ''TASK_DELETED'')]"
    by (simp add: world_sample_def connectionsFor_def Map_get_def)
  ultimately show ?thesis using other by blast
qed

text \<open>
  Claim C1 as stated asks for exactly one serialization for every identity. For an
  identity with no entry the guard \<open>if (connections)\<close> skips \<open>JSON.stringify\<close>.
\<close>

theorem broadcast_unregistered_serializes_nothing:
  "serialized world0 = [] \<and>
   length (serialized (snd (broadcastToUser stringify_sample ''u1'' (TASK_DELETED (Some 7)) world0)))
     \<noteq> 1"
  by (simp add: broadcastToUser_def world0_def Map_get_def)

subsection \<open>Invariants of the registry\<close>

lemma apply_ops_Nil: "apply_ops [] m = m"
  by (simp add: apply_ops_def)

lemma apply_ops_snoc: "apply_ops (ops @ [x]) m = apply_op (apply_ops ops m) x"
  by (simp add: apply_ops_def)

lemma apply_ops_append: "apply_ops (xs @ ys) m = apply_ops ys (apply_ops xs m)"
  by (simp add: apply_ops_def)

lemma apply_op_Register: "apply_op m (Register k c) = Map_set m k (Set_add (connectionsFor m k) c)"
  by (simp add: register_eq)

lemma distinct_keys_apply_op: "distinct (map fst m) \<Longrightarrow> distinct (map fst (apply_op m x))"
  by (cases x) (simp_all add: register_eq distinct_keys_Map_set distinct_keys_unregister)

lemma distinct_keys_reachable: "distinct (map fst (apply_ops ops []))"
  by (induction ops rule: rev_induct)
     (simp_all add: apply_ops_Nil apply_ops_snoc distinct_keys_apply_op)

lemma Set_add_nonempty: "Set_add s x \<noteq> []"
  by (auto simp: Set_add_def)

lemma no_empty_Map_set: "no_empty_entry m \<Longrightarrow> v \<noteq> [] \<Longrightarrow> no_empty_entry (Map_set m k v)"
  by (induction m) (auto simp: no_empty_entry_def)

lemma no_empty_unregister: "no_empty_entry (unregister c m)"
  by (induction c m rule: unregister.induct) (auto simp: no_empty_entry_def Let_def)

lemma no_empty_apply_op: "no_empty_entry m \<Longrightarrow> no_empty_entry (apply_op m x)"
  by (cases x) (simp_all add: register_eq no_empty_Map_set Set_add_nonempty no_empty_unregister)

lemma no_empty_reachable: "no_empty_entry (apply_ops ops [])"
  by (induction ops rule: rev_induct)
     (simp_all add: apply_ops_Nil apply_ops_snoc no_empty_apply_op, simp add: no_empty_entry_def)

lemma has_iff_connections:
  assumes "no_empty_entry m"
  shows "Map_has m k = (connectionsFor m k \<noteq> [])"
proof (cases "map_of m k")
  case None
  then show ?thesis by (simp add: Map_has_def connectionsFor_def Map_get_def)
next
  case (Some cs)
  then have "(k, cs) \<in> set m" by (rule map_of_SomeD)
  with assms have "cs \<noteq> []" by (auto simp: no_empty_entry_def list_all_iff)
  with Some show ?thesis by (simp add: Map_has_def connectionsFor_def Map_get_def)
qed

text \<open>
  Claim C3. After any sequence of registrations and removals from the empty registry, no
  entry has an empty set, so an identity has an entry exactly when it has a connection;
  and the removal of the last connection of an identity deletes its entry in that same
  operation.
\<close>

theorem no_empty_entry_ever:
  "no_empty_entry (apply_ops ops []) \<and>
   Map_has (apply_ops ops []) k = (connectionsFor (apply_ops ops []) k \<noteq> []) \<and>
   (set (connectionsFor (apply_ops ops []) k) \<subseteq> {c} \<longrightarrow>
      \<not> Map_has (apply_ops (ops @ [Unregister c]) []) k)"
proof (intro conjI impI)
  show "no_empty_entry (apply_ops ops [])" by (rule no_empty_reachable)
  show "Map_has (apply_ops ops []) k = (connectionsFor (apply_ops ops []) k \<noteq> [])"
    by (rule has_iff_connections) (rule no_empty_reachable)
next
  assume only: "set (connectionsFor (apply_ops ops []) k) \<subseteq> {c}"
  have "connectionsFor (apply_ops (ops @ [Unregister c]) []) k
          = removeAll c (connectionsFor (apply_ops ops []) k)"
    by (simp add: apply_ops_snoc connectionsFor_unregister distinct_keys_reachable)
  also from only have "\<dots> = []"
    by (auto simp: removeAll_filter_not_eq filter_empty_conv)
  finally show "\<not> Map_has (apply_ops (ops @ [Unregister c]) []) k"
    by (simp add: has_iff_connections [OF no_empty_reachable])
qed

theorem no_empty_entry_ever_witness:
  "set (connectionsFor (apply_ops [Register (KStr ''u1'') 1] []) (KStr ''u1'')) \<subseteq> {1} \<and>
   \<not> Map_has (apply_ops ([Register (KStr ''u1'') 1] @ [Unregister 1]) []) (KStr ''u1'') \<and>
   no_empty_entry (apply_ops [Register (KStr ''u1'') 1] [])"
proof -
  have only: "set (connectionsFor (apply_ops [Register (KStr ''u1'') 1] []) (KStr ''u1'')) \<subseteq> {1}"
    by (simp add: apply_ops_def register_eq connectionsFor_def Map_get_def Set_add_def)
  from no_empty_entry_ever [of "[Register (KStr ''u1'') 1]" "KStr ''u1''" 1] only
  show ?thesis by blast
qed

lemma in_Set_add: "x \<in> set (Set_add s y) \<longleftrightarrow> x \<in> set s \<or> x = y"
  by (auto simp: Set_add_def)

lemma connectionsFor_apply_op_Register:
  "connectionsFor (apply_op m (Register k c)) k' =
     (if k' = k then Set_add (connectionsFor m k) c else connectionsFor m k')"
  by (simp add: register_eq connectionsFor_Map_set)

lemma member_needs_register:
  "c \<in> set (connectionsFor (apply_ops ops []) k) \<Longrightarrow> Register k c \<in> set ops"
proof (induction ops arbitrary: c k rule: rev_induct)
  case Nil
  then show ?case by (simp add: apply_ops_Nil connectionsFor_def Map_get_def)
next
  case (snoc x ops)
  show ?case
  proof (cases x)
    case (Register k' c')
    from snoc.prems have "c \<in> set (connectionsFor (apply_op (apply_ops ops []) (Register k' c')) k)"
      by (simp only: Register apply_ops_snoc)
    then have "c \<in> set (connectionsFor (apply_ops ops []) k) \<or> (k = k' \<and> c = c')"
      unfolding connectionsFor_apply_op_Register by (cases "k = k'") (auto simp: in_Set_add)
    with snoc.IH Register show ?thesis by auto
  next
    case (Unregister c')
    with snoc.prems have "c \<in> set (connectionsFor (apply_ops ops []) k)"
      by (simp add: apply_ops_snoc connectionsFor_unregister distinct_keys_reachable)
    with snoc.IH show ?thesis by simp
  qed
qed

lemma identities_of_member:
  assumes "distinct (map fst m)" and "k \<in> set (identities_of m c)"
  shows "c \<in> set (connectionsFor m k)"
proof -
  from assms(2) obtain cs where "(k, cs) \<in> set m" and "c \<in> set cs"
    by (auto simp: identities_of_def)
  with assms(1) have "map_of m k = Some cs" by simp
  with \<open>c \<in> set cs\<close> show ?thesis
    by (simp add: connectionsFor_def Map_get_def)
qed

lemma distinct_identities_of: "distinct (map fst m) \<Longrightarrow> distinct (identities_of m c)"
  unfolding identities_of_def by (rule distinct_map_filter)

lemma all_equal_distinct_short:
  assumes "distinct xs" and "\<And>x y. x \<in> set xs \<Longrightarrow> y \<in> set xs \<Longrightarrow> x = y"
  shows "length xs \<le> 1"
proof (cases xs)
  case Nil
  then show ?thesis by simp
next
  case (Cons a ys)
  show ?thesis
  proof (cases ys)
    case Nil
    with Cons show ?thesis by simp
  next
    case (Cons b zs)
    with \<open>xs = a # ys\<close> assms(1) have "a \<noteq> b" by auto
    moreover have "a = b"
      by (rule assms(2)) (simp_all add: Cons \<open>xs = a # ys\<close>)
    ultimately show ?thesis by simp
  qed
qed

text \<open>
  Claim C2, as the code has it. The AUTH branch adds the socket to the set of the identity
  it names without looking at the other sets, so nothing in the code makes a socket bind
  once. If the registrations of a socket all name one identity, the socket is in at most
  one set at any time.
\<close>

theorem bound_once_in_one_set:
  assumes "\<forall>k k'. Register k c \<in> set ops \<longrightarrow> Register k' c \<in> set ops \<longrightarrow> k = k'"
  shows "length (identities_of (apply_ops ops []) c) \<le> 1"
proof (rule all_equal_distinct_short)
  show "distinct (identities_of (apply_ops ops []) c)"
    by (rule distinct_identities_of) (rule distinct_keys_reachable)
next
  fix k k'
  assume k: "k \<in> set (identities_of (apply_ops ops []) c)"
    and k': "k' \<in> set (identities_of (apply_ops ops []) c)"
  from k have "Register k c \<in> set ops"
    by (intro member_needs_register identities_of_member distinct_keys_reachable)
  moreover from k' have "Register k' c \<in> set ops"
    by (intro member_needs_register identities_of_member distinct_keys_reachable)
  ultimately show "k = k'" using assms by blast
qed

theorem bound_once_in_one_set_witness:
  "length (identities_of
     (apply_ops [Register (KStr ''u1'') 1, Register (KStr ''u1'') 2, Register (KStr ''u2'') 3,
                 Unregister 2, Register (KStr ''u1'') 1] []) 1) \<le> 1"
  by (rule bound_once_in_one_set) simp

text \<open>
  Claim C2 as stated fails: a socket that sends AUTH for \<open>u1\<close> and then for
  \<open>u2\<close> is in both sets.
\<close>

theorem second_auth_in_two_sets:
  "identities_of (apply_ops [Register (KStr ''u1'') 1, Register (KStr ''u2'') 1] []) 1
     = [KStr ''u1'', KStr ''u2'']"
  by (simp add: apply_ops_def register_eq connectionsFor_def Map_get_def Set_add_def
      identities_of_def)

text \<open>
  Claim C4, as the code has it. Registering a socket under an identity and then removing
  it leaves the set of the identity as it was before, without that socket: empty when no
  other socket was registered under the identity, in particular from the empty registry.
\<close>

theorem register_then_unregister:
  "connectionsFor (apply_ops (ops @ [Register k c, Unregister c]) []) k
     = removeAll c (connectionsFor (apply_ops ops []) k) \<and>
   (set (connectionsFor (apply_ops ops []) k) \<subseteq> {c} \<longrightarrow>
      connectionsFor (apply_ops (ops @ [Register k c, Unregister c]) []) k = [])"
proof -
  let ?m = "apply_ops ops []"
  have "apply_ops (ops @ [Register k c, Unregister c]) []
          = unregister c (apply_op ?m (Register k c))"
    by (simp add: apply_ops_def)
  moreover have "distinct (map fst (apply_op ?m (Register k c)))"
    by (rule distinct_keys_apply_op) (rule distinct_keys_reachable)
  ultimately have "connectionsFor (apply_ops (ops @ [Register k c, Unregister c]) []) k
      = removeAll c (connectionsFor (apply_op ?m (Register k c)) k)"
    by (simp only: connectionsFor_unregister)
  also have "\<dots> = removeAll c (Set_add (connectionsFor ?m k) c)"
    by (simp only: connectionsFor_apply_op_Register refl if_True)
  also have "\<dots> = removeAll c (connectionsFor ?m k)"
    by (simp add: Set_add_def)
  finally have eq: "connectionsFor (apply_ops (ops @ [Register k c, Unregister c]) []) k
      = removeAll c (connectionsFor ?m k)" .
  moreover have "set (connectionsFor ?m k) \<subseteq> {c} \<Longrightarrow> removeAll c (connectionsFor ?m k) = []"
    by (auto simp: removeAll_filter_not_eq filter_empty_conv)
  ultimately show ?thesis by presburger
qed

theorem register_then_unregister_witness:
  "set (connectionsFor (apply_ops [Register (KStr ''u2'') 3] []) (KStr ''u1'')) \<subseteq> {1} \<and>
   connectionsFor (apply_ops ([Register (KStr ''u2'') 3] @ [Register (KStr ''u1'') 1, Unregister 1]) [])
     (KStr ''u1'') = []"
proof -
  have only: "set (connectionsFor (apply_ops [Register (KStr ''u2'') 3] []) (KStr ''u1'')) \<subseteq> {1}"
    by (simp add: apply_ops_def register_eq connectionsFor_def Map_get_def Set_add_def)
  from register_then_unregister [of "[Register (KStr ''u2'') 3]" "KStr ''u1''" 1] only
  show ?thesis by blast
qed

text \<open>
  Claim C4 as stated, for every state of the registry, fails: another socket of the
  identity stays registered.
\<close>

theorem other_connection_stays:
  "connectionsFor
     (apply_ops ([Register (KStr ''u1'') 2] @ [Register (KStr ''u1'') 1, Unregister 1]) [])
     (KStr ''u1'') \<noteq> []"
  by (simp add: apply_ops_def register_eq connectionsFor_def Map_get_def Set_add_def Set_delete_def)

subsection \<open>The message handler\<close>

lemma message_try_unparsable:
  "JSON_parse message = None \<Longrightarrow> message_try JSON_parse ws message m = Inl SyntaxError"
  by (simp add: message_try_def)

lemma get_prop_defined:
  assumes "data \<noteq> JNull" and "data \<noteq> JUndefined"
  obtains v where "get_prop data name = Inr v"
proof (cases data)
  case (JObj r fields)
  then show ?thesis using that by (cases "map_of fields name") simp_all
qed (use assms that in simp_all)

lemma message_try_no_auth:
  assumes "JSON_parse message = Some data" and "\<not> auth_guard data"
  shows "message_try JSON_parse ws message m =
           (if data = JNull \<or> data = JUndefined then Inl TypeError else Inr m)"
proof (cases "data = JNull \<or> data = JUndefined")
  case True
  with assms(1) show ?thesis by (auto simp: message_try_def)
next
  case False
  then obtain t where t: "get_prop data ''type'' = Inr t"
    using get_prop_defined by blast
  from False obtain u where u: "get_prop data ''userId'' = Inr u"
    using get_prop_defined by blast
  from assms(2) t u have "t \<noteq> JStr ''AUTH'' \<or> \<not> truthy u"
    by (auto simp: auth_guard_def)
  with assms(1) t u False show ?thesis
    by (auto simp: message_try_def)
qed

lemma message_try_auth:
  assumes "JSON_parse message = Some data"
    and "get_prop data ''type'' = Inr (JStr ''AUTH'')"
    and "get_prop data ''userId'' = Inr userId" and "truthy userId"
  shows "message_try JSON_parse ws message m =
           Inr (Map_set m (key_of userId) (Set_add (connectionsFor m (key_of userId)) ws))"
  using assms by (simp add: message_try_def register_eq)

text \<open>
  Claim C7, as the code has it. A message that \<open>JSON.parse\<close> rejects is logged and
  dropped, and so is one that parses to \<open>null\<close>, whose \<open>type\<close> cannot be read.
  A message that parses to anything else and fails the guard
  \<open>data.type === 'AUTH' && data.userId\<close> is dropped without a log line: the state is
  the one before. In every one of these cases the handler returns, the registry and the
  sockets are as before, and nothing is written.
\<close>

theorem unbound_message_discarded:
  "(JSON_parse message = None \<longrightarrow>
      on_message JSON_parse ws message w =
        w\<lparr>console_error := console_error w @
            [(''Error parsing WebSocket message:'', SyntaxError)]\<rparr>) \<and>
   (JSON_parse message = Some data \<and> \<not> auth_guard data \<longrightarrow>
      on_message JSON_parse ws message w =
        (if data = JNull \<or> data = JUndefined
         then w\<lparr>console_error := console_error w @
            [(''Error parsing WebSocket message:'', TypeError)]\<rparr>
         else w)) \<and>
   (JSON_parse message = None \<or> (JSON_parse message = Some data \<and> \<not> auth_guard data) \<longrightarrow>
      userConnections (on_message JSON_parse ws message w) = userConnections w \<and>
      readyState (on_message JSON_parse ws message w) = readyState w \<and>
      wire (on_message JSON_parse ws message w) = wire w)"
proof (intro conjI impI)
  assume "JSON_parse message = None"
  then show "on_message JSON_parse ws message w =
        w\<lparr>console_error := console_error w @
            [(''Error parsing WebSocket message:'', SyntaxError)]\<rparr>"
    by (simp add: on_message_def message_try_unparsable)
next
  assume "JSON_parse message = Some data \<and> \<not> auth_guard data"
  then show "on_message JSON_parse ws message w =
        (if data = JNull \<or> data = JUndefined
         then w\<lparr>console_error := console_error w @
            [(''Error parsing WebSocket message:'', TypeError)]\<rparr>
         else w)"
    by (simp add: on_message_def message_try_no_auth)
next
  assume a: "JSON_parse message = None \<or> (JSON_parse message = Some data \<and> \<not> auth_guard data)"
  then show "userConnections (on_message JSON_parse ws message w) = userConnections w"
    by (auto simp: on_message_def message_try_unparsable message_try_no_auth)
  from a show "readyState (on_message JSON_parse ws message w) = readyState w"
    by (auto simp: on_message_def message_try_unparsable message_try_no_auth)
  from a show "wire (on_message JSON_parse ws message w) = wire w"
    by (auto simp: on_message_def message_try_unparsable message_try_no_auth)
qed

theorem unbound_message_discarded_witness:
  \<open>parse_sample ''not json'' = None \<and>
   on_message parse_sample 1 ''not json'' world0 =
     world0\<lparr>console_error := [(''Error parsing WebSocket message:'', SyntaxError)]\<rparr> \<and>
   parse_sample ''{"type":"PING"}'' = Some (JObj 4 [(''type'', JStr ''PING'')]) \<and>
   \<not> auth_guard (JObj 4 [(''type'', JStr ''PING'')]) \<and>
   on_message parse_sample 1 ''{"type":"PING"}'' world0 = world0 \<and>
   userConnections (on_message parse_sample 1 ''{"type":"PING"}'' world0) = []\<close>
proof -
  have p1: "parse_sample ''not json'' = None"
    by (simp add: parse_sample_def)
  have p2: \<open>parse_sample ''{"type":"PING"}'' = Some (JObj 4 [(''type'', JStr ''PING'')])\<close>
    by (simp add: parse_sample_def)
  have g: "\<not> auth_guard (JObj 4 [(''type'', JStr ''PING'')])"
    by (simp add: auth_guard_def)
  note a = unbound_message_discarded [of parse_sample "''not json''" 1 world0 JNull]
  note b = unbound_message_discarded
    [of parse_sample \<open>''{"type":"PING"}''\<close> 1 world0 "JObj 4 [(''type'', JStr ''PING'')]"]
  from a p1 have "on_message parse_sample 1 ''not json'' world0 =
     world0\<lparr>console_error := console_error world0 @
        [(''Error parsing WebSocket message:'', SyntaxError)]\<rparr>"
    by blast
  then have r1: "on_message parse_sample 1 ''not json'' world0 =
     world0\<lparr>console_error := [(''Error parsing WebSocket message:'', SyntaxError)]\<rparr>"
    by (simp add: world0_def)
  from b p2 g have r2: \<open>on_message parse_sample 1 ''{"type":"PING"}'' world0 = world0\<close>
    by simp
  from b p2 g have r3: \<open>userConnections (on_message parse_sample 1 ''{"type":"PING"}'' world0)
      = userConnections world0\<close>
    by blast
  from p1 r1 p2 g r2 r3 show ?thesis by (simp add: world0_def)
qed

text \<open>
  Claim C7 as stated has every message that is not of the AUTH shape logged. Only the
  \<open>catch\<close> branch logs: a well-formed message of another type leaves no log line.
\<close>

theorem ping_is_not_logged:
  \<open>console_error (on_message parse_sample 1 ''{"type":"PING"}'' world0) = console_error world0\<close>
  by (simp add: on_message_def message_try_def parse_sample_def world0_def)

text \<open>
  The guard tests \<open>userId\<close> for truthiness, not for being a string: a number
  other than zero passes it and becomes a key of the map.
\<close>

lemma numeric_userId_is_registered:
  \<open>userConnections (on_message parse_sample 1 ''{"type":"AUTH","userId":42}'' world0)
     = [(KNum 42, [1])]\<close>
  by (simp add: on_message_def message_try_def parse_sample_def world0_def register_eq
      connectionsFor_def Map_get_def Set_add_def)

lemma identities_of_unregister_self: "identities_of (unregister c m) c = []"
  by (induction c m rule: unregister.induct)
     (auto simp: identities_of_def Let_def Set_delete_def)

lemma in_Set_add_self: "x \<in> set (Set_add s x)"
  by (simp add: Set_add_def)

text \<open>
  Claim C6, as the code has it. On an AUTH message with a non-empty string \<open>userId\<close>
  the handler does what \<open>register\<close> does: it adds the socket to the set of that
  identity, creating the entry if there is none. The registry is the only thing that
  changes: nothing is recorded on the socket. The close handler takes the socket out of
  every set by a scan of the registry, whatever the state it is run in.
\<close>

theorem auth_registers_and_close_scans:
  assumes "JSON_parse message = Some data"
    and "get_prop data ''type'' = Inr (JStr ''AUTH'')"
    and "get_prop data ''userId'' = Inr (JStr userId)"
    and "userId \<noteq> []"
  shows "on_message JSON_parse ws message w =
           w\<lparr>userConnections := Map_set (userConnections w) (KStr userId)
               (Set_add (connectionsFor (userConnections w) (KStr userId)) ws)\<rparr> \<and>
         register (KStr userId) ws (userConnections w) =
           Inr (userConnections (on_message JSON_parse ws message w)) \<and>
         ws \<in> set (connectionsFor (userConnections (on_message JSON_parse ws message w))
                   (KStr userId)) \<and>
         identities_of (userConnections (on_close ws w')) ws = []"
proof -
  from assms have "message_try JSON_parse ws message (userConnections w) =
      Inr (Map_set (userConnections w) (KStr userId)
             (Set_add (connectionsFor (userConnections w) (KStr userId)) ws))"
    using message_try_auth [of JSON_parse message data "JStr userId" ws "userConnections w"]
    by simp
  then have eq: "on_message JSON_parse ws message w =
           w\<lparr>userConnections := Map_set (userConnections w) (KStr userId)
               (Set_add (connectionsFor (userConnections w) (KStr userId)) ws)\<rparr>"
    by (simp add: on_message_def)
  moreover from eq have "register (KStr userId) ws (userConnections w) =
           Inr (userConnections (on_message JSON_parse ws message w))"
    by (simp add: register_eq)
  moreover from eq have "ws \<in> set (connectionsFor
      (userConnections (on_message JSON_parse ws message w)) (KStr userId))"
    by (simp add: connectionsFor_Map_set in_Set_add_self)
  moreover have "identities_of (userConnections (on_close ws w')) ws = []"
    by (simp add: on_close_def identities_of_unregister_self)
  ultimately show ?thesis by blast
qed

theorem auth_registers_and_close_scans_witness:
  \<open>userConnections (on_message parse_sample 1 ''{"type":"AUTH","userId":"u1"}'' world0)
     = [(KStr ''u1'', [1])] \<and>
   register (KStr ''u1'') 1 (userConnections world0) = Inr [(KStr ''u1'', [1])] \<and>
   identities_of (userConnections (on_close 1 world_sample)) 1 = []\<close>
proof -
  have p: \<open>parse_sample ''{"type":"AUTH","userId":"u1"}'' =
      Some (JObj 1 [(''type'', JStr ''AUTH''), (''userId'', JStr ''u1'')])\<close>
    by (simp add: parse_sample_def)
  have t: "get_prop (JObj 1 [(''type'', JStr ''AUTH''), (''userId'', JStr ''u1'')]) ''type''
      = Inr (JStr ''AUTH'')"
    by simp
  have u: "get_prop (JObj 1 [(''type'', JStr ''AUTH''), (''userId'', JStr ''u1'')]) ''userId''
      = Inr (JStr ''u1'')"
    by simp
  have n: "''u1'' \<noteq> []" by simp
  note a = auth_registers_and_close_scans
    [of parse_sample \<open>''{"type":"AUTH","userId":"u1"}''\<close>
        "JObj 1 [(''type'', JStr ''AUTH''), (''userId'', JStr ''u1'')]" "''u1''" 1 world0
        world_sample, OF p t u n]
  from a have \<open>userConnections (on_message parse_sample 1 ''{"type":"AUTH","userId":"u1"}'' world0)
     = [(KStr ''u1'', [1])]\<close>
    by (simp add: world0_def connectionsFor_def Map_get_def Set_add_def)
  with a show ?thesis by (simp add: world0_def)
qed

text \<open>
  Claim C6 as stated has the removal go by an identity recorded on the socket. After AUTH
  for \<open>u1\<close> and then for \<open>u2\<close>, the close handler empties the registry, while a
  removal by the recorded identity, be it the first or the last one, leaves the socket in
  the other set.
\<close>

theorem close_ignores_bound_identity:
  "unregister 1 (apply_ops [Register (KStr ''u1'') 1, Register (KStr ''u2'') 1] []) = [] \<and>
   unregister_bound (KStr ''u1'') 1
     (apply_ops [Register (KStr ''u1'') 1, Register (KStr ''u2'') 1] []) = [(KStr ''u2'', [1])] \<and>
   unregister_bound (KStr ''u2'') 1
     (apply_ops [Register (KStr ''u1'') 1, Register (KStr ''u2'') 1] []) = [(KStr ''u1'', [1])]"
  by (simp add: apply_ops_def register_eq connectionsFor_def Map_get_def Set_add_def Set_delete_def)

text \<open>
  The two removals differ only there: where the socket is in no set but that of the
  recorded identity, they give the same registry.
\<close>

lemma unregister_absent:
  "identities_of m c = [] \<Longrightarrow> no_empty_entry m \<Longrightarrow> unregister c m = m"
  by (induction c m rule: unregister.induct)
     (auto simp: identities_of_def no_empty_entry_def Let_def Set_delete_def split: if_splits)

lemma unregister_bound_agrees:
  "distinct (map fst m) \<Longrightarrow> no_empty_entry m \<Longrightarrow> set (identities_of m c) \<subseteq> {k} \<Longrightarrow>
   unregister c m = unregister_bound k c m"
proof (induction k c m rule: unregister_bound.induct)
  case (1 bound ws)
  then show ?case by simp
next
  case (2 bound ws k connections rest)
  show ?case
  proof (cases "k = bound")
    case True
    with 2(2) have "bound \<notin> fst ` set rest" by simp
    with 2(4) have "identities_of rest ws = []"
      by (auto simp: identities_of_def filter_empty_conv image_iff split: if_splits)
    moreover from 2(3) have "no_empty_entry rest" by (simp add: no_empty_entry_def)
    ultimately have "unregister ws rest = rest" by (rule unregister_absent)
    with True show ?thesis by (simp add: Let_def)
  next
    case False
    with 2(4) have notin: "ws \<notin> set connections"
      by (auto simp: identities_of_def split: if_splits)
    from 2(3) have ne: "connections \<noteq> []" and "no_empty_entry rest"
      by (simp_all add: no_empty_entry_def)
    moreover from 2(4) notin have "set (identities_of rest ws) \<subseteq> {bound}"
      by (simp add: identities_of_def)
    ultimately have "unregister ws rest = unregister_bound bound ws rest"
      using 2(1) [OF False] 2(2) by simp
    with False notin ne show ?thesis by (simp add: Let_def Set_delete_def)
  qed
qed

subsection \<open>The share route\<close>

lemma share_route_rejected:
  "schema_parse body taskId actor = Inl e \<Longrightarrow>
   share_route JSON_stringify schema_parse storage_shareTask actor taskId body w = share_failed e w"
  by (simp add: share_route_def)

lemma share_route_not_stored:
  "schema_parse body taskId actor = Inr shareData \<Longrightarrow> storage_shareTask shareData = Inl e \<Longrightarrow>
   share_route JSON_stringify schema_parse storage_shareTask actor taskId body w = share_failed e w"
  by (simp add: share_route_def)

text \<open>
  Claim C8. When the schema accepts the share and the store returns its row, the route
  answers 201 and its whole effect is that of one call of \<open>broadcastToUser\<close>, to
  \<open>shareData.userId\<close> (the recipient), with the message TASK_SHARED whose payload is
  the task id and the actor as \<open>sharedBy\<close>. At most that one message is serialized;
  it is written to the open sockets of the recipient, and a socket that is not
  registered under the recipient, such as one of the actor only, is written nothing.
\<close>

theorem share_goes_to_recipient:
  assumes "schema_parse body taskId actor = Inr shareData"
    and "storage_shareTask shareData = Inr taskShare"
  shows "share_route JSON_stringify schema_parse storage_shareTask actor taskId body w =
           (Created taskShare,
            snd (broadcastToUser JSON_stringify (share_userId shareData)
                   (TASK_SHARED taskId actor) w)) \<and>
         serialized (snd (share_route JSON_stringify schema_parse storage_shareTask actor taskId
                            body w)) =
           serialized w @
             (if Map_has (userConnections w) (KStr (share_userId shareData))
              then [TASK_SHARED taskId actor] else []) \<and>
         wire (snd (share_route JSON_stringify schema_parse storage_shareTask actor taskId body w)) =
           wire w @ map (\<lambda>c. (c, JSON_stringify (TASK_SHARED taskId actor)))
             (filter (\<lambda>c. readyState w c = OPEN)
                (connectionsFor (userConnections w) (KStr (share_userId shareData)))) \<and>
         (\<forall>c. c \<notin> set (connectionsFor (userConnections w) (KStr (share_userId shareData))) \<longrightarrow>
              received (snd (share_route JSON_stringify schema_parse storage_shareTask actor
                               taskId body w)) c = received w c)"
proof -
  let ?b = "broadcastToUser JSON_stringify (share_userId shareData) (TASK_SHARED taskId actor) w"
  from assms have eq: "share_route JSON_stringify schema_parse storage_shareTask actor taskId body w
      = (Created taskShare, snd ?b)"
    by (simp add: share_route_def broadcastToUser_eq)
  have other: "received (snd ?b) c = received w c"
    if "c \<notin> set (connectionsFor (userConnections w) (KStr (share_userId shareData)))" for c
  proof -
    from that have "filter (\<lambda>c'. c' = c \<and> readyState w c' = OPEN)
               (connectionsFor (userConnections w) (KStr (share_userId shareData))) = []"
      by (auto simp: filter_empty_conv)
    then show ?thesis by (simp add: received_broadcast)
  qed
  from eq other show ?thesis by (simp add: broadcastToUser_eq)
qed

theorem share_goes_to_recipient_witness:
  "schema_sample [(''userId'', JStr ''u2'')] (Some 7) ''u1''
     = Inr \<lparr>share_taskId = Some 7, share_userId = ''u2'', share_sharedById = ''u1''\<rparr> \<and>
   storage_sample \<lparr>share_taskId = Some 7, share_userId = ''u2'', share_sharedById = ''u1''\<rparr>
     = Inr \<lparr>share_taskId = Some 7, share_userId = ''u2'', share_sharedById = ''u1''\<rparr> \<and>
   fst (share_route stringify_sample schema_sample storage_sample ''u1'' (Some 7)
          [(''userId'', JStr ''u2'')] world_sample)
     = Created \<lparr>share_taskId = Some 7, share_userId = ''u2'', share_sharedById = ''u1''\<rparr> \<and>
   serialized (snd (share_route stringify_sample schema_sample storage_sample ''u1'' (Some 7)
          [(''userId'', JStr ''u2'')] world_sample))
     = [TASK_SHARED (Some 7) ''u1''] \<and>
   wire (snd (share_route stringify_sample schema_sample storage_sample ''u1'' (Some 7)
          [(''userId'', JStr ''u2'')] world_sample))
     = [(3, ''TASK_SHARED'')] \<and>
   1 \<notin> set (connectionsFor (userConnections world_sample) (KStr ''u2'')) \<and>
   received (snd (share_route stringify_sample schema_sample storage_sample ''u1'' (Some 7)
          [(''userId'', JStr ''u2'')] world_sample)) 1
     = received world_sample 1"
proof -
  let ?sd = "\<lparr>share_taskId = Some 7, share_userId = ''u2'', share_sharedById = ''u1''\<rparr>"
  have p: "schema_sample [(''userId'', JStr ''u2'')] (Some 7) ''u1'' = Inr ?sd"
    by (simp add: schema_sample_def)
  have s: "storage_sample ?sd = Inr ?sd"
    by (simp add: storage_sample_def)
  have other: "1 \<notin> set (connectionsFor (userConnections world_sample) (KStr ''u2''))"
    by (simp add: world_sample_def connectionsFor_def Map_get_def)
  note a = share_goes_to_recipient
    [of schema_sample "[(''userId'', JStr ''u2'')]" "Some 7" "''u1''" ?sd storage_sample ?sd
        stringify_sample world_sample, OF p s]
  note a1 = a [THEN conjunct1]
    and a2 = a [THEN conjunct2, THEN conjunct1]
    and a3 = a [THEN conjunct2, THEN conjunct2, THEN conjunct1]
    and a4 = a [THEN conjunct2, THEN conjunct2, THEN conjunct2]
  from a1 have r1: "fst (share_route stringify_sample schema_sample storage_sample ''u1'' (Some 7)
          [(''userId'', JStr ''u2'')] world_sample) = Created ?sd"
    by simp
  from a2 have "serialized (snd (share_route stringify_sample schema_sample storage_sample
          ''u1'' (Some 7) [(''userId'', JStr ''u2'')] world_sample)) =
        serialized world_sample @
          (if Map_has (userConnections world_sample) (KStr ''u2'')
           then [TASK_SHARED (Some 7) ''u1''] else [])"
    by simp
  also have "\<dots> = [TASK_SHARED (Some 7) ''u1'']"
    by (simp add: world_sample_def Map_has_def)
  finally have r2: "serialized (snd (share_route stringify_sample schema_sample storage_sample
          ''u1'' (Some 7) [(''userId'', JStr ''u2'')] world_sample)) = [TASK_SHARED (Some 7) ''u1'']" .
  from a3 have "wire (snd (share_route stringify_sample schema_sample storage_sample
          ''u1'' (Some 7) [(''userId'', JStr ''u2'')] world_sample)) =
        wire world_sample @ map (\<lambda>c. (c, stringify_sample (TASK_SHARED (Some 7) ''u1'')))
          (filter (\<lambda>c. readyState world_sample c = OPEN)
             (connectionsFor (userConnections world_sample) (KStr ''u2'')))"
    by simp
  also have "\<dots> = [(3, ''TASK_SHARED'')]"
    by (simp add: world_sample_def connectionsFor_def Map_get_def)
  finally have r3: "wire (snd (share_route stringify_sample schema_sample storage_sample
          ''u1'' (Some 7) [(''userId'', JStr ''u2'')] world_sample)) = [(3, ''TASK_SHARED'')]" .
  from a4 other have r4: "received (snd (share_route stringify_sample schema_sample storage_sample
          ''u1'' (Some 7) [(''userId'', JStr ''u2'')] world_sample)) 1 = received world_sample 1"
    by simp
  from p s r1 r2 r3 other r4 show ?thesis by blast
qed

subsection \<open>Runs of the whole system\<close>

lemma run_Nil: "run P S [] w = w"
  by (simp add: run_def)

lemma run_Cons: "run P S (i # ins) w = run P S ins (step P S w i)"
  by (simp add: run_def)

lemma run_snoc: "run P S (ins @ [i]) w = step P S (run P S ins w) i"
  by (simp add: run_def)

lemma received_Emit:
  "received (step P S w (Emit u e)) c = received w c @ deliveries w u c (S e)"
  by (simp add: received_broadcast deliveries_def)

lemma deliveries_absent:
  "c \<notin> set (connectionsFor (userConnections w) (KStr u)) \<Longrightarrow> deliveries w u c s = []"
  by (auto simp: deliveries_def filter_empty_conv)

lemma filter_eq_distinct:
  "distinct xs \<Longrightarrow> filter (\<lambda>y. y = x) xs = (if x \<in> set xs then [x] else [])"
  by (induction xs) auto

lemma deliveries_once:
  assumes "distinct (connectionsFor (userConnections w) (KStr u))"
  shows "deliveries w u c s =
    (if c \<in> set (connectionsFor (userConnections w) (KStr u)) \<and> readyState w c = OPEN
     then [s] else [])"
proof -
  let ?cs = "connectionsFor (userConnections w) (KStr u)"
  have "filter (\<lambda>c'. c' = c \<and> readyState w c' = OPEN) ?cs =
        (if readyState w c = OPEN then filter (\<lambda>c'. c' = c) ?cs else [])"
    by (auto simp: filter_empty_conv intro: filter_cong)
  moreover from assms have "filter (\<lambda>c'. c' = c) ?cs = (if c \<in> set ?cs then [c] else [])"
    by (rule filter_eq_distinct)
  ultimately show ?thesis by (simp add: deliveries_def)
qed

lemma wire_on_message: "wire (on_message P c message w) = wire w"
  by (simp add: on_message_def split: sum.splits)

lemma readyState_on_message: "readyState (on_message P c message w) = readyState w"
  by (simp add: on_message_def split: sum.splits)

lemma wire_step_grows: "\<exists>xs. wire (step P S w i) = wire w @ xs"
  by (cases i) (simp_all add: wire_on_message on_close_def broadcastToUser_eq)

lemma wire_run_grows: "\<exists>xs. wire (run P S ins w) = wire w @ xs"
proof (induction ins arbitrary: w)
  case Nil
  then show ?case by (simp add: run_Nil)
next
  case (Cons i ins)
  from wire_step_grows obtain xs where "wire (step P S w i) = wire w @ xs" by blast
  moreover from Cons obtain ys
    where "wire (run P S ins (step P S w i)) = wire (step P S w i) @ ys" by blast
  ultimately show ?case by (simp add: run_Cons)
qed

lemma received_run_grows:
  "received (run P S ins w) c =
     received w c @ drop (length (received w c)) (received (run P S ins w) c)"
proof -
  from wire_run_grows obtain xs where "wire (run P S ins w) = wire w @ xs" by blast
  then show ?thesis by (simp add: received_def)
qed

lemma wire_step_quiet: "\<forall>u e. i \<noteq> Emit u e \<Longrightarrow> wire (step P S w i) = wire w"
  by (cases i) (simp_all add: wire_on_message on_close_def)

lemma wire_run_quiet: "\<forall>u e. Emit u e \<notin> set ins \<Longrightarrow> wire (run P S ins w) = wire w"
proof (induction ins arbitrary: w)
  case Nil
  then show ?case by (simp add: run_Nil)
next
  case (Cons i ins)
  then have "\<forall>u e. i \<noteq> Emit u e" and "\<forall>u e. Emit u e \<notin> set ins" by auto
  with Cons.IH show ?case by (simp add: run_Cons wire_step_quiet)
qed

lemma absent_connectionsFor:
  assumes "identities_of m c = []"
  shows "c \<notin> set (connectionsFor m k)"
proof (cases "map_of m k")
  case None
  then show ?thesis by (simp add: connectionsFor_def Map_get_def)
next
  case (Some cs)
  then have "(k, cs) \<in> set m" by (rule map_of_SomeD)
  with assms have "c \<notin> set cs" by (auto simp: identities_of_def filter_empty_conv)
  with Some show ?thesis by (simp add: connectionsFor_def Map_get_def)
qed

lemma absent_Map_set:
  "identities_of m c = [] \<Longrightarrow> c \<notin> set v \<Longrightarrow> identities_of (Map_set m k v) c = []"
  by (induction m) (auto simp: identities_of_def split: if_splits)

lemma absent_unregister:
  "identities_of m c = [] \<Longrightarrow> identities_of (unregister c' m) c = []"
  by (induction c' m rule: unregister.induct)
     (auto simp: identities_of_def Let_def Set_delete_def split: if_splits)

lemma on_message_registry:
  "userConnections (on_message P c message w) = userConnections w \<or>
   (\<exists>k. userConnections (on_message P c message w) =
      Map_set (userConnections w) k (Set_add (connectionsFor (userConnections w) k) c))"
  by (auto simp: on_message_def message_try_def register_eq split: sum.splits option.splits)

lemma absent_on_message:
  assumes "identities_of (userConnections w) c = []" and "c' \<noteq> c"
  shows "identities_of (userConnections (on_message P c' message w)) c = []"
proof -
  from assms have "c \<notin> set (Set_add (connectionsFor (userConnections w) k) c')" for k
    by (simp add: in_Set_add absent_connectionsFor)
  with assms(1) have "identities_of (Map_set (userConnections w) k
      (Set_add (connectionsFor (userConnections w) k) c')) c = []" for k
    by (rule absent_Map_set)
  with assms(1) on_message_registry [of P c' message w] show ?thesis by auto
qed

lemma absent_step:
  assumes "identities_of (userConnections w) c = []" and "\<forall>message. i \<noteq> Message c message"
  shows "identities_of (userConnections (step P S w i)) c = []"
proof (cases i)
  case (Message c' message)
  with assms(2) have "c' \<noteq> c" by auto
  with assms(1) Message show ?thesis by (simp add: absent_on_message)
next
  case (Close c')
  with assms(1) show ?thesis by (simp add: on_close_def absent_unregister)
next
  case (Transport c' s)
  with assms(1) show ?thesis by simp
next
  case (Emit u e)
  with assms(1) show ?thesis by (simp add: broadcastToUser_eq)
qed

lemma absent_run:
  "identities_of (userConnections w) c = [] \<Longrightarrow> \<forall>message. Message c message \<notin> set ins \<Longrightarrow>
   identities_of (userConnections (run P S ins w)) c = []"
proof (induction ins arbitrary: w)
  case Nil
  then show ?case by (simp add: run_Nil)
next
  case (Cons i ins)
  from Cons.prems have "\<forall>message. i \<noteq> Message c message" by auto
  with Cons.prems(1) have "identities_of (userConnections (step P S w i)) c = []"
    by (rule absent_step)
  moreover from Cons.prems have "\<forall>message. Message c message \<notin> set ins" by auto
  ultimately show ?case by (simp add: run_Cons Cons.IH)
qed

text \<open>
  The registry of a run is the registry of its registrations and removals, so the
  invariants of the registry hold along every run that starts with no entry.
\<close>

lemma on_message_as_op:
  "userConnections (on_message P c message w) =
     apply_ops (reg_ops_of P (Message c message)) (userConnections w)"
proof (cases "P message")
  case None
  then show ?thesis
    by (simp add: on_message_def message_try_def auth_key_def apply_ops_def)
next
  case (Some data)
  show ?thesis
  proof (cases "auth_guard data")
    case False
    with Some show ?thesis
      by (simp add: on_message_def message_try_no_auth auth_key_def apply_ops_def)
  next
    case True
    then obtain u where u: "get_prop data ''type'' = Inr (JStr ''AUTH'')"
      "get_prop data ''userId'' = Inr u" "truthy u"
      by (auto simp: auth_guard_def split: sum.splits)
    with Some True show ?thesis
      by (simp add: on_message_def message_try_auth auth_key_def apply_ops_def register_eq)
  qed
qed

lemma step_as_ops:
  "userConnections (step P S w i) = apply_ops (reg_ops_of P i) (userConnections w)"
proof (cases i)
  case (Message c message)
  then show ?thesis by (simp only: step.simps on_message_as_op)
next
  case (Close c)
  then show ?thesis by (simp add: on_close_def apply_ops_def)
next
  case (Transport c s)
  then show ?thesis by (simp add: apply_ops_def)
next
  case (Emit u e)
  then show ?thesis by (simp add: apply_ops_def broadcastToUser_eq)
qed

lemma registry_of_run:
  "userConnections (run P S ins w) =
     apply_ops (concat (map (reg_ops_of P) ins)) (userConnections w)"
proof (induction ins arbitrary: w)
  case Nil
  then show ?case by (simp add: run_Nil apply_ops_def)
next
  case (Cons i ins)
  then show ?case by (simp add: run_Cons step_as_ops apply_ops_append del: step.simps)
qed

lemma run_keeps_invariants:
  assumes "userConnections w = []"
  shows "no_empty_entry (userConnections (run P S ins w))"
    and "distinct (map fst (userConnections (run P S ins w)))"
  using assms by (simp_all add: registry_of_run no_empty_reachable distinct_keys_reachable)

text \<open>
  Claim C9. A socket that closed, and sent nothing since, is written nothing by a later
  broadcast. A socket that is not in the set of the identity when a broadcast is made is
  written nothing by it, whatever is registered afterwards: nothing but a broadcast
  writes, so there is no replay. The payloads a socket is written are appended in call
  order: what the broadcast of \<open>e1\<close> writes to it comes before everything written
  later, and what the later broadcast of \<open>e2\<close> writes comes last.
\<close>

theorem no_replay_and_order:
  "((\<forall>message. Message c message \<notin> set ins) \<longrightarrow>
      received (run P S (Close c # ins @ [Emit u e]) w) c =
      received (run P S (Close c # ins) w) c) \<and>
   (c \<notin> set (connectionsFor (userConnections w) (KStr u)) \<and> (\<forall>u' e'. Emit u' e' \<notin> set ins) \<longrightarrow>
      received (run P S (Emit u e # ins) w) c = received w c) \<and>
   received (run P S (Emit u e1 # ins @ [Emit u e2]) w) c =
     received w c @ deliveries w u c (S e1)
       @ drop (length (received (run P S [Emit u e1] w) c))
           (received (run P S (Emit u e1 # ins) w) c)
       @ deliveries (run P S (Emit u e1 # ins) w) u c (S e2) \<and>
   ((\<forall>u' e'. Emit u' e' \<notin> set ins) \<longrightarrow>
      received (run P S (Emit u e1 # ins @ [Emit u e2]) w) c =
        received w c @ deliveries w u c (S e1)
          @ deliveries (run P S (Emit u e1 # ins) w) u c (S e2))"
proof (intro conjI impI)
  assume quiet: "\<forall>message. Message c message \<notin> set ins"
  have "identities_of (userConnections (on_close c w)) c = []"
    by (simp add: on_close_def identities_of_unregister_self)
  with quiet have "identities_of (userConnections (run P S ins (on_close c w))) c = []"
    by (intro absent_run)
  then have "deliveries (run P S ins (on_close c w)) u c (S e) = []"
    by (intro deliveries_absent absent_connectionsFor)
  then have "received (step P S (run P S ins (on_close c w)) (Emit u e)) c =
      received (run P S ins (on_close c w)) c"
    by (simp only: received_Emit append_Nil2)
  then show "received (run P S (Close c # ins @ [Emit u e]) w) c =
      received (run P S (Close c # ins) w) c"
    by (simp only: append_Cons [symmetric] run_snoc) (simp only: run_Cons step.simps)
next
  assume a: "c \<notin> set (connectionsFor (userConnections w) (KStr u)) \<and>
    (\<forall>u' e'. Emit u' e' \<notin> set ins)"
  then have "wire (run P S ins (step P S w (Emit u e))) = wire (step P S w (Emit u e))"
    by (intro wire_run_quiet) simp
  then have "received (run P S (Emit u e # ins) w) c = received (step P S w (Emit u e)) c"
    by (simp add: run_Cons received_def)
  also from a have "\<dots> = received w c"
    by (simp add: received_Emit deliveries_absent del: step.simps)
  finally show "received (run P S (Emit u e # ins) w) c = received w c" .
next
  let ?w1 = "step P S w (Emit u e1)"
  let ?w2 = "run P S ins ?w1"
  have "run P S (Emit u e1 # ins @ [Emit u e2]) w = step P S ?w2 (Emit u e2)"
    by (simp only: append_Cons [symmetric] run_snoc) (simp only: run_Cons)
  then have A: "received (run P S (Emit u e1 # ins @ [Emit u e2]) w) c =
      received ?w2 c @ deliveries ?w2 u c (S e2)"
    by (simp only: received_Emit)
  define mid where "mid = drop (length (received ?w1 c)) (received ?w2 c)"
  have B: "received ?w2 c = received ?w1 c @ mid"
    unfolding mid_def by (rule received_run_grows)
  have C: "received ?w1 c = received w c @ deliveries w u c (S e1)"
    by (rule received_Emit)
  have "received (run P S (Emit u e1 # ins @ [Emit u e2]) w) c =
      received w c @ deliveries w u c (S e1) @ mid @ deliveries ?w2 u c (S e2)"
    by (simp only: A B C append_assoc)
  then show "received (run P S (Emit u e1 # ins @ [Emit u e2]) w) c =
     received w c @ deliveries w u c (S e1)
       @ drop (length (received (run P S [Emit u e1] w) c))
           (received (run P S (Emit u e1 # ins) w) c)
       @ deliveries (run P S (Emit u e1 # ins) w) u c (S e2)"
    by (simp only: mid_def run_Cons run_Nil)
next
  assume quiet: "\<forall>u' e'. Emit u' e' \<notin> set ins"
  let ?w1 = "step P S w (Emit u e1)"
  let ?w2 = "run P S ins ?w1"
  have "run P S (Emit u e1 # ins @ [Emit u e2]) w = step P S ?w2 (Emit u e2)"
    by (simp only: append_Cons [symmetric] run_snoc) (simp only: run_Cons)
  then have A: "received (run P S (Emit u e1 # ins @ [Emit u e2]) w) c =
      received ?w2 c @ deliveries ?w2 u c (S e2)"
    by (simp only: received_Emit)
  from quiet have "wire ?w2 = wire ?w1" by (rule wire_run_quiet)
  then have B: "received ?w2 c = received ?w1 c" by (simp add: received_def)
  have C: "received ?w1 c = received w c @ deliveries w u c (S e1)"
    by (rule received_Emit)
  have "received (run P S (Emit u e1 # ins @ [Emit u e2]) w) c =
      received w c @ deliveries w u c (S e1) @ deliveries ?w2 u c (S e2)"
    by (simp only: A B C append_assoc)
  then show "received (run P S (Emit u e1 # ins @ [Emit u e2]) w) c =
        received w c @ deliveries w u c (S e1)
          @ deliveries (run P S (Emit u e1 # ins) w) u c (S e2)"
    by (simp only: run_Cons)
qed

lemmas sample_eval =
  run_Nil run_Cons on_message_def on_close_def message_try_def parse_sample_def register_eq
  connectionsFor_def Map_get_def Map_has_def Set_add_def Set_delete_def broadcastToUser_eq
  received_def deliveries_def world_sample_def world0_def Let_def

theorem no_replay_and_order_witness:
  \<open>(\<forall>message. Message 1 message \<notin> set [Message 3 ''{"type":"AUTH","userId":"u1"}'']) \<and>
   received (run parse_sample stringify_sample
       (Close 1 # [Message 3 ''{"type":"AUTH","userId":"u1"}'']
          @ [Emit ''u1'' (TASK_UPDATED JNull)]) world_sample) 1 = [] \<and>
   3 \<notin> set (connectionsFor (userConnections world_sample) (KStr ''u1'')) \<and>
   (\<forall>u' e'. Emit u' e' \<notin> set [Message 3 ''{"type":"AUTH","userId":"u1"}'']) \<and>
   received (run parse_sample stringify_sample
       (Emit ''u1'' (TASK_CREATED JNull) # [Message 3 ''{"type":"AUTH","userId":"u1"}''])
       world_sample) 3 = [] \<and>
   received (run parse_sample stringify_sample
       (Emit ''u1'' (TASK_CREATED JNull) # [Message 3 ''{"type":"AUTH","userId":"u1"}'']
          @ [Emit ''u1'' (TASK_UPDATED JNull)]) world_sample) 1
     = [''TASK_CREATED'', ''TASK_UPDATED''] \<and>
   received (run parse_sample stringify_sample
       (Emit ''u1'' (TASK_CREATED JNull) # [Message 3 ''{"type":"AUTH","userId":"u1"}'']
          @ [Emit ''u1'' (TASK_UPDATED JNull)]) world_sample) 3
     = [''TASK_UPDATED'']\<close>
proof -
  let ?auth = \<open>Message 3 ''{"type":"AUTH","userId":"u1"}''\<close>
  let ?run = "run parse_sample stringify_sample"
  have h1: "\<forall>message. Message 1 message \<notin> set [?auth]" by simp
  have h2: "3 \<notin> set (connectionsFor (userConnections world_sample) (KStr ''u1''))"
    by (simp add: world_sample_def connectionsFor_def Map_get_def)
  have h3: "\<forall>u' e'. Emit u' e' \<notin> set [?auth]" by simp
  note t1 = no_replay_and_order
    [of 1 "[?auth]" parse_sample stringify_sample "''u1''" "TASK_UPDATED JNull" world_sample,
     THEN conjunct1, THEN mp, OF h1]
  note t2 = no_replay_and_order
    [of 3 "[?auth]" parse_sample stringify_sample "''u1''" "TASK_CREATED JNull" world_sample,
     THEN conjunct2, THEN conjunct1, THEN mp, OF conjI [OF h2 h3]]
  note t3 = no_replay_and_order
    [of 1 "[?auth]" parse_sample stringify_sample "''u1''" _ world_sample
        "TASK_CREATED JNull" "TASK_UPDATED JNull",
     THEN conjunct2, THEN conjunct2, THEN conjunct2, THEN mp, OF h3]
  note t4 = no_replay_and_order
    [of 3 "[?auth]" parse_sample stringify_sample "''u1''" _ world_sample
        "TASK_CREATED JNull" "TASK_UPDATED JNull",
     THEN conjunct2, THEN conjunct2, THEN conjunct2, THEN mp, OF h3]
  have r1: "received (?run (Close 1 # [?auth] @ [Emit ''u1'' (TASK_UPDATED JNull)]) world_sample) 1
      = []"
    by (subst t1) (simp add: sample_eval)
  have r2: "received (?run (Emit ''u1'' (TASK_CREATED JNull) # [?auth]) world_sample) 3 = []"
    by (subst t2) (simp add: sample_eval)
  have r3: "received (?run (Emit ''u1'' (TASK_CREATED JNull) # [?auth]
          @ [Emit ''u1'' (TASK_UPDATED JNull)]) world_sample) 1
      = [''TASK_CREATED'', ''TASK_UPDATED'']"
    by (subst t3) (simp add: sample_eval)
  have r4: "received (?run (Emit ''u1'' (TASK_CREATED JNull) # [?auth]
          @ [Emit ''u1'' (TASK_UPDATED JNull)]) world_sample) 3
      = [''TASK_UPDATED'']"
    by (subst t4) (simp add: sample_eval)
  from h1 r1 h2 h3 r2 r3 r4 show ?thesis by blast
qed

text \<open>
  The scenario of the specification: two sockets bind to \<open>u1\<close> and both are
  written the first message; the first closes and the second alone is written the next
  message; the second closes and \<open>u1\<close> has no entry.
\<close>

lemma specification_scenario:
  \<open>wire (run parse_sample stringify_sample
      [Message 1 ''{"type":"AUTH","userId":"u1"}'', Message 2 ''{"type":"AUTH","userId":"u1"}'',
       Emit ''u1'' (TASK_CREATED (JObj 0 [(''id'', JNum 7)]))] world0)
     = [(1, ''TASK_CREATED''), (2, ''TASK_CREATED'')]\<close>
  \<open>wire (run parse_sample stringify_sample
      [Message 1 ''{"type":"AUTH","userId":"u1"}'', Message 2 ''{"type":"AUTH","userId":"u1"}'',
       Emit ''u1'' (TASK_CREATED (JObj 0 [(''id'', JNum 7)])), Close 1,
       Emit ''u1'' (TASK_UPDATED (JObj 0 [(''id'', JNum 7)]))] world0)
     = [(1, ''TASK_CREATED''), (2, ''TASK_CREATED''), (2, ''TASK_UPDATED'')]\<close>
  \<open>userConnections (run parse_sample stringify_sample
      [Message 1 ''{"type":"AUTH","userId":"u1"}'', Message 2 ''{"type":"AUTH","userId":"u1"}'',
       Emit ''u1'' (TASK_CREATED (JObj 0 [(''id'', JNum 7)])), Close 1,
       Emit ''u1'' (TASK_UPDATED (JObj 0 [(''id'', JNum 7)]))] world0)
     = [(KStr ''u1'', [2])]\<close>
  \<open>userConnections (run parse_sample stringify_sample
      [Message 1 ''{"type":"AUTH","userId":"u1"}'', Message 2 ''{"type":"AUTH","userId":"u1"}'',
       Emit ''u1'' (TASK_CREATED (JObj 0 [(''id'', JNum 7)])), Close 1,
       Emit ''u1'' (TASK_UPDATED (JObj 0 [(''id'', JNum 7)])), Close 2] world0)
     = []\<close>
  by (simp_all add: sample_eval)

end
